theory Spec2Isabelle
  imports Complex_Main "HOL-Library.Word"
begin

unbundle bit_operations_syntax

section \<open>Errors of the request handlers\<close>

text \<open>
  A handler of \<^verbatim>\<open>backend/app\<close> either returns its response or raises. What it raises is
  an \<^verbatim>\<open>HTTPException(status_code, detail)\<close> of its own, or an exception it does not
  catch, which the framework answers with a bare status 500.
\<close>

datatype py_exception = ZeroDivisionError | DBAPIError

datatype failure = HTTPException nat string | Uncaught py_exception

section \<open>Persistent data (models.py) and request schemas (schemas.py)\<close>

text \<open>
  Identifiers (UUIDs) are modelled by their string form. Python floats and SQL numerics
  are modelled as exact reals; a nullable column or an \<^verbatim>\<open>Optional\<close> field is an option.
\<close>

record project =
  user_id :: string

record project_image =
  project_id :: string
  storage_original_path :: string
  storage_transformed_path :: "string option"
  real_width :: "real option"
  real_height :: "real option"
  real_unit :: "string option"
  mask_coverage_percent :: "real option"
  deselect_area :: "real option"
  effective_deselect_area :: "real option"
  usable_area :: "real option"
  cemented_area :: "real option"
  cemented_percent :: "real option"
  sort_key_numeric :: "real option"
  status :: string

text \<open>\<^verbatim>\<open>schemas.DeselectItemCreate\<close>; the field \<^verbatim>\<open>length\<close> is written \<open>length'\<close>.\<close>

record deselect_item =
  shape :: string
  count :: int
  length' :: "real option"
  breadth :: "real option"
  diameter :: "real option"
  area :: "real option"
  unit :: string

text \<open>
  A row of \<^verbatim>\<open>models.ImageDeselection\<close>: the owning image and the item's columns (the
  generated primary key and the creation time are left out).
\<close>

record image_deselection =
  image_id :: string
  item :: deselect_item

text \<open>\<^verbatim>\<open>schemas.ImageAnalysisUpdate\<close>: every field is optional and defaults to None.\<close>

record image_analysis_update =
  upd_mask_coverage_percent :: "real option"
  upd_deselect_area :: "real option"
  upd_effective_deselect_area :: "real option"
  upd_usable_area :: "real option"
  upd_cemented_area :: "real option"
  upd_cemented_percent :: "real option"
  upd_sort_key_numeric :: "real option"
  upd_real_width :: "real option"
  upd_real_height :: "real option"
  upd_real_unit :: "string option"
  upd_deselections :: "deselect_item list option"
  upd_cemented_image :: "string option"

text \<open>The committed contents of the database, as every session sees them.\<close>

record database =
  projects :: "string \<rightharpoonup> project"
  project_images :: "string \<rightharpoonup> project_image"
  image_deselections :: "image_deselection list"

section \<open>save_image_analysis (routes.py)\<close>

text \<open>
  The ownership query of the handlers: the image with this id, in this project, whose
  project belongs to the current user (\<^verbatim>\<open>scalar_one_or_none\<close>).
\<close>

definition select_owned_image ::
  "database \<Rightarrow> string \<Rightarrow> string \<Rightarrow> string \<Rightarrow> project_image option" where
  "select_owned_image db pid iid uid =
     (case project_images db iid of
        None \<Rightarrow> None
      | Some im \<Rightarrow>
          (if project_id im = pid then
             (case projects db pid of
                None \<Rightarrow> None
              | Some p \<Rightarrow> if user_id p = uid then Some im else None)
           else None))"

text \<open>
  The loop over the ten field names: \<^verbatim>\<open>value = getattr(analysis, field)\<close>, and
  \<^verbatim>\<open>setattr(db_image, field, value)\<close> only when the value is not None. One function per
  column type, applied in the order of the source's list.
\<close>

definition set_if_provided ::
  "'a option \<Rightarrow> ('a option \<Rightarrow> project_image \<Rightarrow> project_image) \<Rightarrow> project_image \<Rightarrow> project_image" where
  "set_if_provided v setter im = (case v of None \<Rightarrow> im | Some x \<Rightarrow> setter (Some x) im)"

definition update_fields :: "image_analysis_update \<Rightarrow> project_image \<Rightarrow> project_image" where
  "update_fields a im =
     (let im = set_if_provided (upd_mask_coverage_percent a) (\<lambda>v r. r\<lparr>mask_coverage_percent := v\<rparr>) im;
          im = set_if_provided (upd_deselect_area a) (\<lambda>v r. r\<lparr>deselect_area := v\<rparr>) im;
          im = set_if_provided (upd_effective_deselect_area a) (\<lambda>v r. r\<lparr>effective_deselect_area := v\<rparr>) im;
          im = set_if_provided (upd_usable_area a) (\<lambda>v r. r\<lparr>usable_area := v\<rparr>) im;
          im = set_if_provided (upd_cemented_area a) (\<lambda>v r. r\<lparr>cemented_area := v\<rparr>) im;
          im = set_if_provided (upd_cemented_percent a) (\<lambda>v r. r\<lparr>cemented_percent := v\<rparr>) im;
          im = set_if_provided (upd_sort_key_numeric a) (\<lambda>v r. r\<lparr>sort_key_numeric := v\<rparr>) im;
          im = set_if_provided (upd_real_width a) (\<lambda>v r. r\<lparr>real_width := v\<rparr>) im;
          im = set_if_provided (upd_real_height a) (\<lambda>v r. r\<lparr>real_height := v\<rparr>) im;
          im = set_if_provided (upd_real_unit a) (\<lambda>v r. r\<lparr>real_unit := v\<rparr>) im
      in im)"

text \<open>
  \<^verbatim>\<open>delete(ImageDeselection).where(image_id == db_image.id)\<close>, then one \<^verbatim>\<open>db.add\<close> per
  item of the request, in order.
\<close>

definition delete_deselections :: "string \<Rightarrow> image_deselection list \<Rightarrow> image_deselection list" where
  "delete_deselections iid rows = filter (\<lambda>r. image_id r \<noteq> iid) rows"

definition new_deselection :: "string \<Rightarrow> deselect_item \<Rightarrow> image_deselection" where
  "new_deselection iid it = \<lparr>image_id = iid, item = it\<rparr>"

definition replace_deselections ::
  "string \<Rightarrow> deselect_item list option \<Rightarrow> image_deselection list \<Rightarrow> image_deselection list" where
  "replace_deselections iid ds rows =
     (case ds of
        None \<Rightarrow> rows
      | Some items \<Rightarrow> delete_deselections iid rows @ map (new_deselection iid) items)"

text \<open>
  The column \<^verbatim>\<open>shape\<close> is an SQL enumeration of three names while the schema accepts any
  string: the insert of a row with another shape is refused when the session is flushed.
\<close>

definition valid_shape :: "string \<Rightarrow> bool" where
  "valid_shape s \<longleftrightarrow> s = ''rect'' \<or> s = ''circle'' \<or> s = ''irregular''"

definition flush_ok :: "deselect_item list option \<Rightarrow> bool" where
  "flush_ok ds = (case ds of None \<Rightarrow> True | Some items \<Rightarrow> list_all (\<lambda>it. valid_shape (shape it)) items)"

text \<open>
  The handler runs in one session (\<^verbatim>\<open>get_db\<close>), which issues, in this order: the
  ownership query (operation 0), the delete statement when a list is given (1), the
  single \<^verbatim>\<open>commit\<close> that flushes the changed image row and the added rows (2) and the
  \<^verbatim>\<open>refresh\<close> (3). \<open>fault\<close> names the operation at which the database connection
  fails, if any. Nothing is visible to other sessions before the commit; an exception
  before or in the commit leaves the session without a commit, so the committed
  database is the one the request found. The result is the response (the refreshed
  image row) or the failure, and the committed database after the request.
\<close>

definition save_image_analysis ::
  "nat option \<Rightarrow> database \<Rightarrow> string \<Rightarrow> string \<Rightarrow> string \<Rightarrow> image_analysis_update
     \<Rightarrow> (failure + project_image) \<times> database" where
  "save_image_analysis fault db pid iid uid analysis =
     (if fault = Some 0 then (Inl (Uncaught DBAPIError), db)
      else case select_owned_image db pid iid uid of
        None \<Rightarrow> (Inl (HTTPException 404 ''Image not found''), db)
      | Some db_image \<Rightarrow>
          (let db_image' = update_fields analysis db_image in
           if upd_deselections analysis \<noteq> None \<and> fault = Some 1 then (Inl (Uncaught DBAPIError), db)
           else
             (let pending = db\<lparr>project_images := (project_images db)(iid \<mapsto> db_image'),
                                image_deselections :=
                                  replace_deselections iid (upd_deselections analysis) (image_deselections db)\<rparr>
              in if fault = Some 2 \<or> \<not> flush_ok (upd_deselections analysis)
                 then (Inl (Uncaught DBAPIError), db)
                 else if fault = Some 3 then (Inl (Uncaught DBAPIError), pending)
                 else (Inr db_image', pending))))"

text \<open>The deselection items stored for an image, in row order.\<close>

definition deselections_of :: "database \<Rightarrow> string \<Rightarrow> deselect_item list" where
  "deselections_of db iid = map item (filter (\<lambda>r. image_id r = iid) (image_deselections db))"

section \<open>Images\<close>

text \<open>
  An image is a numpy array of shape (rows, columns, 3) of 8-bit channels (OpenCV's
  B, G, R order): a list of rows of pixels. A mask is a single-channel array of bytes.
  A cell is a pixel position, column first, as OpenCV's points \<^verbatim>\<open>(x, y)\<close> are. Arrays are
  rectangular, so every row of an array has the width that \<open>np_shape\<close> reads off the
  first one.
\<close>

type_synonym pixel = "8 word \<times> 8 word \<times> 8 word"

type_synonym image = "pixel list list"

type_synonym mask = "8 word list list"

type_synonym cell = "nat \<times> nat"

text \<open>\<^verbatim>\<open>a.shape[:2]\<close>: the number of rows and of columns.\<close>

definition np_shape :: "'a list list \<Rightarrow> nat \<times> nat" where
  "np_shape a = (length a, case a of [] \<Rightarrow> 0 | r # _ \<Rightarrow> length r)"

text \<open>\<^verbatim>\<open>np.zeros((rows, cols), np.uint8)\<close>.\<close>

definition np_zeros :: "nat \<Rightarrow> nat \<Rightarrow> mask" where
  "np_zeros rows cols = replicate rows (replicate cols 0)"

definition pixel_at :: "image \<Rightarrow> cell \<Rightarrow> pixel" where
  "pixel_at im c = im ! snd c ! fst c"

definition in_bounds :: "image \<Rightarrow> cell \<Rightarrow> bool" where
  "in_bounds im c \<longleftrightarrow> snd c < fst (np_shape im) \<and> fst c < snd (np_shape im)"

section \<open>Region growing (floodfill-03.py)\<close>

subsection \<open>cv2.floodFill\<close>

text \<open>
  The program calls OpenCV's \<^verbatim>\<open>floodFill\<close> with a mask. The library function is modelled
  as OpenCV documents it for an 8-bit three-channel image: the errors it raises for its
  arguments, the frame of ones it writes on the border of the mask, and the fill itself,
  which never crosses a non-zero mask cell. A pixel joins the region when each channel
  \<open>v\<close> of it satisfies \<open>ref - loDiff \<le> v \<le> ref + upDiff\<close>, where \<open>ref\<close> is the seed
  pixel's channel with \<^verbatim>\<open>FLOODFILL_FIXED_RANGE\<close> and the channel of the neighbour the fill
  came from without it. The low byte of \<open>flags\<close> is the connectivity (4 or 8), bits 8 to 15
  are the value written into the mask (1 when they are 0). The program sets
  \<^verbatim>\<open>FLOODFILL_MASK_ONLY\<close>, so the image itself is not painted and only the mask is returned.
\<close>

datatype cv_error = StsOutOfRange | StsBadArg | StsBadFlag | StsAssert

definition channel_in_range :: "int \<Rightarrow> int \<Rightarrow> 8 word \<Rightarrow> 8 word \<Rightarrow> bool" where
  "channel_in_range lo up ref v \<longleftrightarrow> uint ref - lo \<le> uint v \<and> uint v \<le> uint ref + up"

fun in_range :: "int \<times> int \<times> int \<Rightarrow> int \<times> int \<times> int \<Rightarrow> pixel \<Rightarrow> pixel \<Rightarrow> bool" where
  "in_range (l0, l1, l2) (u0, u1, u2) (r0, r1, r2) (v0, v1, v2) \<longleftrightarrow>
     channel_in_range l0 u0 r0 v0 \<and> channel_in_range l1 u1 r1 v1 \<and> channel_in_range l2 u2 r2 v2"

text \<open>
  The mask is one cell larger than the image on every side: the image pixel \<open>(x, y)\<close> is
  the mask cell in row \<open>y + 1\<close>, column \<open>x + 1\<close>. A read outside the mask gives None.
\<close>

definition mask_get :: "mask \<Rightarrow> cell \<Rightarrow> 8 word option" where
  "mask_get m c =
     (if Suc (snd c) < length m \<and> Suc (fst c) < length (m ! Suc (snd c))
      then Some (m ! Suc (snd c) ! Suc (fst c)) else None)"

definition mask_set :: "mask \<Rightarrow> cell \<Rightarrow> 8 word \<Rightarrow> mask" where
  "mask_set m c v = m[Suc (snd c) := (m ! Suc (snd c))[Suc (fst c) := v]]"

text \<open>The neighbours of a pixel: four of them, or eight with the diagonals.\<close>

fun neighbours :: "nat \<Rightarrow> cell \<Rightarrow> cell list" where
  "neighbours conn (x, y) =
     [(Suc x, y)] @ (if 0 < x then [(x - 1, y)] else []) @
     [(x, Suc y)] @ (if 0 < y then [(x, y - 1)] else []) @
     (if conn = 8 then
        [(Suc x, Suc y)] @ (if 0 < x then [(x - 1, Suc y)] else []) @
        (if 0 < y then [(Suc x, y - 1)] else []) @
        (if 0 < x \<and> 0 < y then [(x - 1, y - 1)] else [])
      else [])"

record fill_params =
  fp_image :: image
  fp_lo :: "int \<times> int \<times> int"
  fp_up :: "int \<times> int \<times> int"
  fp_connectivity :: nat
  fp_fixed_range :: bool
  fp_seed_val :: pixel
  fp_mask_val :: "8 word"

definition new_mask_val :: "fill_params \<Rightarrow> 8 word" where
  "new_mask_val P = (if fp_mask_val P = 0 then 1 else fp_mask_val P)"

definition admits :: "fill_params \<Rightarrow> pixel \<Rightarrow> cell \<Rightarrow> bool" where
  "admits P ref c \<longleftrightarrow>
     in_bounds (fp_image P) c \<and>
     in_range (fp_lo P) (fp_up P) (if fp_fixed_range P then fp_seed_val P else ref)
       (pixel_at (fp_image P) c)"

text \<open>
  The fill, as a loop over a worklist of candidate pixels, each with the colour of the
  pixel it was reached from. A candidate whose mask cell is 0 and whose colour is in range
  is marked, and its neighbours become candidates. The number of zero cells of the mask
  falls with every marked pixel, and the worklist shrinks otherwise: the loop ends.
\<close>

definition zeros :: "mask \<Rightarrow> nat" where
  "zeros m = sum_list (map (\<lambda>r. length (filter (\<lambda>v. v = 0) r)) m)"

lemma zeros_row_update:
  "i < length r \<Longrightarrow> r ! i = 0 \<Longrightarrow> v \<noteq> 0 \<Longrightarrow>
   Suc (length (filter (\<lambda>v. v = 0) (r[i := v]))) = length (filter (\<lambda>v. v = (0::8 word)) r)"
proof (induction r arbitrary: i)
  case Nil
  then show ?case by simp
next
  case (Cons a r)
  then show ?case by (cases i) auto
qed

lemma zeros_mask_set:
  assumes "mask_get m c = Some 0" and "v \<noteq> 0"
  shows "zeros (mask_set m c v) < zeros m"
proof -
  let ?y = "Suc (snd c)" and ?x = "Suc (fst c)"
  from assms(1) have y: "?y < length m" and x: "?x < length (m ! ?y)" and z: "m ! ?y ! ?x = 0"
    by (auto simp: mask_get_def split: if_splits)
  let ?f = "\<lambda>r. length (filter (\<lambda>v. v = (0::8 word)) r)"
  have "zeros (mask_set m c v) = sum_list ((map ?f m)[?y := ?f ((m ! ?y)[?x := v])])"
    by (simp add: zeros_def mask_set_def map_update)
  also have "\<dots> = sum_list (map ?f m) + ?f ((m ! ?y)[?x := v]) - ?f (m ! ?y)"
    using y by (simp add: sum_list_update)
  also have "\<dots> < sum_list (map ?f m)"
  proof -
    have "Suc (?f ((m ! ?y)[?x := v])) = ?f (m ! ?y)"
      using zeros_row_update [OF x z assms(2)] .
    moreover have "m ! ?y \<in> set m"
      using y by (rule nth_mem)
    then have "?f (m ! ?y) \<in> set (map ?f m)"
      by simp
    then have "?f (m ! ?y) \<le> sum_list (map ?f m)"
      by (intro member_le_sum_list) simp_all
    ultimately show ?thesis by linarith
  qed
  finally show ?thesis by (simp add: zeros_def)
qed

lemma new_mask_val_nonzero: "new_mask_val P \<noteq> 0"
  by (simp add: new_mask_val_def)

function ff_loop :: "fill_params \<Rightarrow> mask \<Rightarrow> (pixel \<times> cell) list \<Rightarrow> mask" where
  "ff_loop P m [] = m"
| "ff_loop P m ((ref, c) # wl) =
     (if mask_get m c = Some 0 \<and> admits P ref c
      then ff_loop P (mask_set m c (new_mask_val P))
             (map (\<lambda>n. (pixel_at (fp_image P) c, n)) (neighbours (fp_connectivity P) c) @ wl)
      else ff_loop P m wl)"
  by pat_completeness auto
termination
proof (relation "measures [\<lambda>(P, m, wl). zeros m, \<lambda>(P, m, wl). length wl]", goal_cases)
  case 1
  then show ?case by simp
next
  case (2 P m ref c wl)
  then show ?case using zeros_mask_set [of m c "new_mask_val P"] by (simp add: new_mask_val_nonzero)
next
  case (3 P m ref c wl)
  then show ?case by simp
qed

declare ff_loop.simps [simp del]

definition FLOODFILL_FIXED_RANGE :: nat where
  "FLOODFILL_FIXED_RANGE = push_bit 16 1"

definition FLOODFILL_MASK_ONLY :: nat where
  "FLOODFILL_MASK_ONLY = push_bit 17 1"

text \<open>The frame of ones that \<^verbatim>\<open>floodFill\<close> writes on the first and last row and column.\<close>

definition set_border :: "mask \<Rightarrow> mask" where
  "set_border m =
     map (\<lambda>(i, r). if i = 0 \<or> Suc i = length m then replicate (length r) 1
                    else r[0 := 1, length r - 1 := 1])
       (enumerate 0 m)"

definition floodFill ::
  "image \<Rightarrow> mask \<Rightarrow> int \<times> int \<Rightarrow> pixel \<Rightarrow> int \<times> int \<times> int \<Rightarrow> int \<times> int \<times> int \<Rightarrow> nat
     \<Rightarrow> cv_error + mask" where
  "floodFill im m seedPoint newVal loDiff upDiff flags =
     (let (h, w) = np_shape im;
          (x, y) = seedPoint;
          (l0, l1, l2) = loDiff;
          (u0, u1, u2) = upDiff;
          connectivity = (if flags AND 255 = 0 then 4 else flags AND 255)
      in if connectivity \<noteq> 4 \<and> connectivity \<noteq> 8 then Inl StsBadFlag
         else if \<not> (length m = h + 2 \<and> (\<forall>r \<in> set m. length r = w + 2)) then Inl StsAssert
         else if \<not> (0 \<le> x \<and> x < int w \<and> 0 \<le> y \<and> y < int h) then Inl StsOutOfRange
         else if l0 < 0 \<or> l1 < 0 \<or> l2 < 0 \<or> u0 < 0 \<or> u1 < 0 \<or> u2 < 0 then Inl StsBadArg
         else
           (let seed = (nat x, nat y);
                P = \<lparr>fp_image = im, fp_lo = loDiff, fp_up = upDiff,
                     fp_connectivity = connectivity,
                     fp_fixed_range = (flags AND FLOODFILL_FIXED_RANGE \<noteq> 0),
                     fp_seed_val = pixel_at im seed,
                     fp_mask_val = of_nat (drop_bit 8 flags AND 255)\<rparr>
            in Inr (ff_loop P (set_border m) [(pixel_at im seed, seed)])))"

subsection \<open>on_mouse_click\<close>

text \<open>
  The module's globals: the tolerance (50 in the file), the loaded image and the mask of
  the last click. The blended \<^verbatim>\<open>display_img\<close> only feeds the window and is left out.
  A click with the left button copies the image, makes a zero mask two cells larger than
  the image in each direction, fills it, and keeps the mask without its outer frame
  (\<^verbatim>\<open>mask[1:-1, 1:-1]\<close>). Any other event changes nothing. An error of \<^verbatim>\<open>floodFill\<close>
  leaves the callback before the assignment.
\<close>

record globals =
  TOLERANCE :: int
  img :: image
  current_mask :: "mask option"

definition EVENT_LBUTTONDOWN :: nat where
  "EVENT_LBUTTONDOWN = 1"

definition on_mouse_click :: "nat \<Rightarrow> int \<Rightarrow> int \<Rightarrow> globals \<Rightarrow> cv_error + globals" where
  "on_mouse_click event x y g =
     (if event = EVENT_LBUTTONDOWN then
        (let work_img = img g;
             (h, w) = np_shape (img g);
             mask = np_zeros (h + 2) (w + 2);
             lo_diff = (TOLERANCE g, TOLERANCE g, TOLERANCE g);
             up_diff = (TOLERANCE g, TOLERANCE g, TOLERANCE g);
             flags = 4 OR FLOODFILL_FIXED_RANGE OR FLOODFILL_MASK_ONLY OR push_bit 8 255
         in case floodFill work_img mask (x, y) (0, 255, 0) lo_diff up_diff flags of
              Inl e \<Rightarrow> Inl e
            | Inr mask' \<Rightarrow>
                Inr (g\<lparr>current_mask := Some (map (\<lambda>r. butlast (tl r)) (butlast (tl mask')))\<rparr>))
      else Inr g)"

subsection \<open>The region, stated without the algorithm\<close>

text \<open>
  A pixel is within the tolerance of the seed colour when no channel differs from the
  seed's by more than the tolerance. Two pixels are 4-adjacent when they differ by one
  step in one coordinate. A pixel is connected to the seed when a path of 4-adjacent
  pixels leads from the seed to it, every pixel of which is in the image and within the
  tolerance of the colour the image has at the seed.
\<close>

definition within_tolerance :: "int \<Rightarrow> pixel \<Rightarrow> pixel \<Rightarrow> bool" where
  "within_tolerance T s p \<longleftrightarrow>
     (case s of (s0, s1, s2) \<Rightarrow> case p of (p0, p1, p2) \<Rightarrow>
        \<bar>uint p0 - uint s0\<bar> \<le> T \<and> \<bar>uint p1 - uint s1\<bar> \<le> T \<and> \<bar>uint p2 - uint s2\<bar> \<le> T)"

fun adjacent4 :: "cell \<Rightarrow> cell \<Rightarrow> bool" where
  "adjacent4 (x, y) (x', y') \<longleftrightarrow>
     (y = y' \<and> (x' = Suc x \<or> x = Suc x')) \<or> (x = x' \<and> (y' = Suc y \<or> y = Suc y'))"

fun path4 :: "cell list \<Rightarrow> bool" where
  "path4 [] = True"
| "path4 [c] = True"
| "path4 (c # d # cs) = (adjacent4 c d \<and> path4 (d # cs))"

definition connected_to_seed :: "image \<Rightarrow> int \<Rightarrow> cell \<Rightarrow> cell \<Rightarrow> bool" where
  "connected_to_seed im T seed c \<longleftrightarrow>
     (\<exists>p. p \<noteq> [] \<and> hd p = seed \<and> last p = c \<and> path4 p \<and>
        (\<forall>d \<in> set p. in_bounds im d \<and> within_tolerance T (pixel_at im seed) (pixel_at im d)))"

section \<open>Rectification (main.py, routes.py)\<close>

subsection \<open>cv2.getPerspectiveTransform and cv2.warpPerspective\<close>













subsection \<open>The two transform handlers\<close>









section \<open>Area accounting\<close>

text \<open>
  Modelled from the spec: the usable area of the area accountant (section 4.4,
  \<^verbatim>\<open>usable_area = max(0, real_width * real_height - effective_deselect_area)\<close>, a negative raw
  result clamped to zero and reported with a warning rather than as a failure). No file
  of the repository computes it: \<^verbatim>\<open>save_image_analysis\<close> stores the numbers the client
  sends.
\<close>

datatype warning = ArithmeticGuard

definition summarize_usable_area :: "real \<Rightarrow> real \<Rightarrow> real \<Rightarrow> failure + real \<times> warning list" where
  "summarize_usable_area rw rh eda =
     (let raw = rw * rh - eda
      in if raw < 0 then Inr (0, [ArithmeticGuard]) else Inr (raw, []))"

section \<open>Example data\<close>

text \<open>
  A stored project image with one deselection row, and analysis requests for it.
\<close>

definition ex_item :: deselect_item where
  "ex_item = \<lparr>shape = ''rect'', count = 2, length' = Some 2, breadth = Some (3/2),
              diameter = None, area = Some 6, unit = ''m''\<rparr>"

definition ex_image :: project_image where
  "ex_image = \<lparr>project_id = ''p1'', storage_original_path = ''storage/a_original.jpg'',
      storage_transformed_path = None, real_width = Some 4, real_height = Some 3,
      real_unit = Some ''m'', mask_coverage_percent = None, deselect_area = Some 6,
      effective_deselect_area = Some 6, usable_area = Some 6, cemented_area = None,
      cemented_percent = None, sort_key_numeric = None, status = ''ready''\<rparr>"

definition ex_db :: database where
  "ex_db = \<lparr>projects = [''p1'' \<mapsto> \<lparr>user_id = ''u1''\<rparr>],
             project_images = [''i1'' \<mapsto> ex_image],
             image_deselections = [\<lparr>image_id = ''i1'', item = ex_item\<rparr>]\<rparr>"

definition ex_update :: image_analysis_update where
  "ex_update = \<lparr>upd_mask_coverage_percent = None, upd_deselect_area = None,
      upd_effective_deselect_area = None, upd_usable_area = None, upd_cemented_area = Some 2,
      upd_cemented_percent = None, upd_sort_key_numeric = None, upd_real_width = None,
      upd_real_height = None, upd_real_unit = None, upd_deselections = None,
      upd_cemented_image = None\<rparr>"

definition ex_replace :: image_analysis_update where
  "ex_replace = ex_update\<lparr>upd_deselections :=
      Some [ex_item\<lparr>shape := ''circle'', diameter := Some 1\<rparr>, ex_item\<lparr>count := 1\<rparr>]\<rparr>"

definition ex_bad_replace :: image_analysis_update where
  "ex_bad_replace = ex_update\<lparr>upd_deselections :=
      Some [ex_item\<lparr>count := 1\<rparr>, ex_item\<lparr>shape := ''triangle''\<rparr>]\<rparr>"

text \<open>A one-row image of three pixels, for the clicks.\<close>

definition ex_globals :: globals where
  "ex_globals = \<lparr>TOLERANCE = 50, img = [[(10, 10, 10), (40, 20, 30), (200, 10, 10)]],
                  current_mask = None\<rparr>"







section \<open>Notions used in the proofs\<close>

text \<open>
  With a fixed range the test of a candidate does not depend on where it was reached
  from: \<open>adm\<close> is that test, and \<open>edges\<close> the steps of the fill from a pixel to an
  admissible neighbour.
\<close>

definition adm :: "fill_params \<Rightarrow> cell \<Rightarrow> bool" where
  "adm P c = admits P (fp_seed_val P) c"

definition edges :: "fill_params \<Rightarrow> (cell \<times> cell) set" where
  "edges P = {(a, b). b \<in> set (neighbours (fp_connectivity P) a) \<and> adm P b}"

text \<open>
  The invariant of the loop: every admissible neighbour of a marked cell is marked or
  pending; and every admissible cell of the mask is still 0 or already marked.
\<close>

definition closed_upto :: "fill_params \<Rightarrow> mask \<Rightarrow> cell set \<Rightarrow> bool" where
  "closed_upto P m pending \<longleftrightarrow>
     (\<forall>c c'. mask_get m c = Some (new_mask_val P) \<longrightarrow> (c, c') \<in> edges P \<longrightarrow>
        mask_get m c' = Some (new_mask_val P) \<or> c' \<in> pending)"

definition fillable :: "fill_params \<Rightarrow> mask \<Rightarrow> bool" where
  "fillable P m \<longleftrightarrow>
     (\<forall>c. adm P c \<longrightarrow> mask_get m c = Some 0 \<or> mask_get m c = Some (new_mask_val P))"

text \<open>The parameters and the starting mask of the fill that a click runs.\<close>

definition click_params :: "globals \<Rightarrow> cell \<Rightarrow> fill_params" where
  "click_params g s =
     \<lparr>fp_image = img g, fp_lo = (TOLERANCE g, TOLERANCE g, TOLERANCE g),
      fp_up = (TOLERANCE g, TOLERANCE g, TOLERANCE g), fp_connectivity = 4,
      fp_fixed_range = True, fp_seed_val = pixel_at (img g) s, fp_mask_val = 255\<rparr>"

definition click_mask :: "globals \<Rightarrow> mask" where
  "click_mask g = set_border (np_zeros (fst (np_shape (img g)) + 2) (snd (np_shape (img g)) + 2))"



section \<open>Properties of save_image_analysis\<close>

lemma set_if_provided_None: "set_if_provided None f im = im"
  by (simp add: set_if_provided_def)

lemma set_if_provided_Some: "set_if_provided (Some x) f im = f (Some x) im"
  by (simp add: set_if_provided_def)

lemma update_fields_sel:
  "real_width (update_fields a im) = (case upd_real_width a of None \<Rightarrow> real_width im | Some v \<Rightarrow> Some v)"
  "real_height (update_fields a im) = (case upd_real_height a of None \<Rightarrow> real_height im | Some v \<Rightarrow> Some v)"
  "real_unit (update_fields a im) = (case upd_real_unit a of None \<Rightarrow> real_unit im | Some v \<Rightarrow> Some v)"
  "mask_coverage_percent (update_fields a im) = (case upd_mask_coverage_percent a of None \<Rightarrow> mask_coverage_percent im | Some v \<Rightarrow> Some v)"
  "deselect_area (update_fields a im) = (case upd_deselect_area a of None \<Rightarrow> deselect_area im | Some v \<Rightarrow> Some v)"
  "effective_deselect_area (update_fields a im) = (case upd_effective_deselect_area a of None \<Rightarrow> effective_deselect_area im | Some v \<Rightarrow> Some v)"
  "usable_area (update_fields a im) = (case upd_usable_area a of None \<Rightarrow> usable_area im | Some v \<Rightarrow> Some v)"
  "cemented_area (update_fields a im) = (case upd_cemented_area a of None \<Rightarrow> cemented_area im | Some v \<Rightarrow> Some v)"
  "cemented_percent (update_fields a im) = (case upd_cemented_percent a of None \<Rightarrow> cemented_percent im | Some v \<Rightarrow> Some v)"
  "sort_key_numeric (update_fields a im) = (case upd_sort_key_numeric a of None \<Rightarrow> sort_key_numeric im | Some v \<Rightarrow> Some v)"
  "project_id (update_fields a im) = project_id im"
  "storage_original_path (update_fields a im) = storage_original_path im"
  "storage_transformed_path (update_fields a im) = storage_transformed_path im"
  "status (update_fields a im) = status im"
  by (simp_all add: update_fields_def set_if_provided_def Let_def split: option.split)

lemma select_owned_image_Some:
  "select_owned_image db pid iid uid = Some im \<Longrightarrow> project_images db iid = Some im"
  by (auto simp: select_owned_image_def split: option.splits if_splits)

lemma save_image_analysis_cases:
  assumes "save_image_analysis fault db pid iid uid a = (r, db')"
  shows "db' = db \<or>
         (\<exists>im. project_images db iid = Some im \<and> flush_ok (upd_deselections a) \<and>
            db' = db\<lparr>project_images := (project_images db)(iid \<mapsto> update_fields a im),
                     image_deselections :=
                       replace_deselections iid (upd_deselections a) (image_deselections db)\<rparr>)"
  using assms
  by (auto simp: save_image_analysis_def Let_def dest: select_owned_image_Some
           split: if_splits option.splits)

lemma save_image_analysis_Inr:
  assumes "save_image_analysis fault db pid iid uid a = (Inr im', db')"
  shows "\<exists>im. project_images db iid = Some im \<and> im' = update_fields a im \<and>
            db' = db\<lparr>project_images := (project_images db)(iid \<mapsto> update_fields a im),
                     image_deselections :=
                       replace_deselections iid (upd_deselections a) (image_deselections db)\<rparr>"
  using assms
  by (auto simp: save_image_analysis_def Let_def dest: select_owned_image_Some
           split: if_splits option.splits)

lemma deselections_of_replace:
  "map item (filter (\<lambda>r. image_id r = iid) (replace_deselections iid (Some items) rows)) = items"
  by (simp add: replace_deselections_def delete_deselections_def new_deselection_def comp_def
        filter_empty_conv)

lemma other_deselections_replace:
  "jid \<noteq> iid \<Longrightarrow>
   filter (\<lambda>r. image_id r = jid) (replace_deselections iid ds rows) = filter (\<lambda>r. image_id r = jid) rows"
  by (cases ds) (auto simp: replace_deselections_def delete_deselections_def new_deselection_def
        filter_empty_conv intro: filter_cong)

text \<open>
  Claim C10. An analysis field that is null in the request is left as stored on the image
  row, whatever the outcome of the request; a stored value is never reset to null; and
  when \<^verbatim>\<open>deselections\<close> is null every deselection row is kept.
\<close>

theorem save_image_analysis_null_fields_kept:
  assumes "save_image_analysis fault db pid iid uid a = (r, db')"
    and "project_images db iid = Some im"
  shows "\<exists>im'. project_images db' iid = Some im' \<and>
      (upd_mask_coverage_percent a = None \<longrightarrow> mask_coverage_percent im' = mask_coverage_percent im) \<and>
      (upd_deselect_area a = None \<longrightarrow> deselect_area im' = deselect_area im) \<and>
      (upd_effective_deselect_area a = None \<longrightarrow> effective_deselect_area im' = effective_deselect_area im) \<and>
      (upd_usable_area a = None \<longrightarrow> usable_area im' = usable_area im) \<and>
      (upd_cemented_area a = None \<longrightarrow> cemented_area im' = cemented_area im) \<and>
      (upd_cemented_percent a = None \<longrightarrow> cemented_percent im' = cemented_percent im) \<and>
      (upd_sort_key_numeric a = None \<longrightarrow> sort_key_numeric im' = sort_key_numeric im) \<and>
      (upd_real_width a = None \<longrightarrow> real_width im' = real_width im) \<and>
      (upd_real_height a = None \<longrightarrow> real_height im' = real_height im) \<and>
      (upd_real_unit a = None \<longrightarrow> real_unit im' = real_unit im) \<and>
      (mask_coverage_percent im \<noteq> None \<longrightarrow> mask_coverage_percent im' \<noteq> None) \<and>
      (deselect_area im \<noteq> None \<longrightarrow> deselect_area im' \<noteq> None) \<and>
      (effective_deselect_area im \<noteq> None \<longrightarrow> effective_deselect_area im' \<noteq> None) \<and>
      (usable_area im \<noteq> None \<longrightarrow> usable_area im' \<noteq> None) \<and>
      (cemented_area im \<noteq> None \<longrightarrow> cemented_area im' \<noteq> None) \<and>
      (cemented_percent im \<noteq> None \<longrightarrow> cemented_percent im' \<noteq> None) \<and>
      (sort_key_numeric im \<noteq> None \<longrightarrow> sort_key_numeric im' \<noteq> None) \<and>
      (real_width im \<noteq> None \<longrightarrow> real_width im' \<noteq> None) \<and>
      (real_height im \<noteq> None \<longrightarrow> real_height im' \<noteq> None) \<and>
      (real_unit im \<noteq> None \<longrightarrow> real_unit im' \<noteq> None) \<and>
      (upd_deselections a = None \<longrightarrow> image_deselections db' = image_deselections db)"
proof -
  from save_image_analysis_cases [OF assms(1)]
  consider (unchanged) "db' = db"
    | (committed) "db' = db\<lparr>project_images := (project_images db)(iid \<mapsto> update_fields a im),
                     image_deselections :=
                       replace_deselections iid (upd_deselections a) (image_deselections db)\<rparr>"
    using assms(2) by auto
  then show ?thesis
  proof cases
    case unchanged
    then show ?thesis using assms(2) by simp
  next
    case committed
    have "project_images db' iid = Some (update_fields a im)"
      using committed by simp
    moreover have "upd_deselections a = None \<longrightarrow> image_deselections db' = image_deselections db"
      using committed by (simp add: replace_deselections_def)
    ultimately show ?thesis
      by (simp add: update_fields_sel split: option.split)
  qed
qed

text \<open>
  Claim C9. When the request gives a deselection list, the committed database after the
  request is either the one before it (the request failed before or in its commit) or
  holds exactly the new list for the image; a successful request holds the new list; the
  rows of other images are kept. No outcome shows a mix of old and new items.
\<close>

theorem save_image_analysis_replaces_deselections:
  assumes "save_image_analysis fault db pid iid uid a = (r, db')"
    and "upd_deselections a = Some items"
  shows "(db' = db \<or> deselections_of db' iid = items) \<and>
         (\<forall>im'. r = Inr im' \<longrightarrow> deselections_of db' iid = items) \<and>
         (\<forall>jid. jid \<noteq> iid \<longrightarrow> deselections_of db' jid = deselections_of db jid)"
proof -
  have 1: "db' = db \<or> deselections_of db' iid = items"
    using save_image_analysis_cases [OF assms(1)] assms(2)
    by (auto simp: deselections_of_def deselections_of_replace)
  have 2: "deselections_of db' iid = items" if "r = Inr im'" for im'
    using save_image_analysis_Inr [of fault db pid iid uid a im' db'] assms that
    by (auto simp: deselections_of_def deselections_of_replace)
  have 3: "deselections_of db' jid = deselections_of db jid" if "jid \<noteq> iid" for jid
    using save_image_analysis_cases [OF assms(1)] that
    by (auto simp: deselections_of_def other_deselections_replace)
  from 1 2 3 show ?thesis by blast
qed

lemma ex_select: "select_owned_image ex_db ''p1'' ''i1'' ''u1'' = Some ex_image"
  by (simp add: select_owned_image_def ex_db_def ex_image_def)

theorem save_image_analysis_null_fields_kept_witness:
  "\<exists>im'. fst (save_image_analysis None ex_db ''p1'' ''i1'' ''u1'' ex_update) = Inr im' \<and>
     project_images (snd (save_image_analysis None ex_db ''p1'' ''i1'' ''u1'' ex_update)) ''i1'' = Some im' \<and>
     cemented_area im' = Some 2 \<and> usable_area im' = Some 6 \<and> real_unit im' = Some ''m'' \<and>
     image_deselections (snd (save_image_analysis None ex_db ''p1'' ''i1'' ''u1'' ex_update))
       = image_deselections ex_db"
proof -
  let ?res = "save_image_analysis None ex_db ''p1'' ''i1'' ''u1'' ex_update"
  have run: "?res = (fst ?res, snd ?res)" by simp
  have stored: "project_images ex_db ''i1'' = Some ex_image" by (simp add: ex_db_def)
  have ok: "fst ?res = Inr (update_fields ex_update ex_image)"
    by (simp add: save_image_analysis_def ex_select Let_def flush_ok_def ex_update_def)
  have new: "project_images (snd ?res) ''i1'' = Some (update_fields ex_update ex_image)"
    by (simp add: save_image_analysis_def ex_select Let_def flush_ok_def ex_update_def)
  have ca: "cemented_area (update_fields ex_update ex_image) = Some 2"
    by (simp add: update_fields_sel ex_update_def)
  from save_image_analysis_null_fields_kept [OF run stored] ok new ca
  show ?thesis by (simp add: ex_update_def ex_image_def)
qed

theorem save_image_analysis_replaces_deselections_witness:
  "deselections_of (snd (save_image_analysis None ex_db ''p1'' ''i1'' ''u1'' ex_replace)) ''i1''
     = [ex_item\<lparr>shape := ''circle'', diameter := Some 1\<rparr>, ex_item\<lparr>count := 1\<rparr>] \<and>
   snd (save_image_analysis None ex_db ''p1'' ''i1'' ''u1'' ex_bad_replace) = ex_db \<and>
   snd (save_image_analysis (Some 2) ex_db ''p1'' ''i1'' ''u1'' ex_replace) = ex_db"
proof -
  let ?res = "save_image_analysis None ex_db ''p1'' ''i1'' ''u1'' ex_replace"
  have run: "?res = (fst ?res, snd ?res)" by simp
  have given: "upd_deselections ex_replace =
      Some [ex_item\<lparr>shape := ''circle'', diameter := Some 1\<rparr>, ex_item\<lparr>count := 1\<rparr>]"
    by (simp add: ex_replace_def)
  have ok: "fst ?res = Inr (update_fields ex_replace ex_image)"
    by (simp add: save_image_analysis_def ex_select Let_def flush_ok_def ex_replace_def
          ex_item_def valid_shape_def)
  have bad: "snd (save_image_analysis None ex_db ''p1'' ''i1'' ''u1'' ex_bad_replace) = ex_db"
    by (simp add: save_image_analysis_def ex_select Let_def flush_ok_def ex_bad_replace_def
          ex_item_def valid_shape_def)
  have fault: "snd (save_image_analysis (Some 2) ex_db ''p1'' ''i1'' ''u1'' ex_replace) = ex_db"
    by (simp add: save_image_analysis_def ex_select Let_def ex_replace_def)
  from save_image_analysis_replaces_deselections [OF run given] ok bad fault
  show ?thesis by simp
qed

section \<open>Properties of the region growing\<close>

lemma admits_fixed: "fp_fixed_range P \<Longrightarrow> admits P r c = adm P c"
  by (simp add: admits_def adm_def)

subsection \<open>mask_get and mask_set\<close>

lemma mask_get_set_same:
  "mask_get m c = Some u \<Longrightarrow> mask_get (mask_set m c v) c = Some v"
  by (auto simp: mask_get_def mask_set_def split: if_splits)

lemma length_row_mask_set: "length (mask_set m c v ! i) = length (m ! i)"
proof (cases "Suc (snd c) < length m")
  case True
  then show ?thesis by (cases "i = Suc (snd c)") (simp_all add: mask_set_def)
next
  case False
  then show ?thesis by (simp add: mask_set_def list_update_beyond)
qed

lemma mask_get_set_other:
  assumes "c' \<noteq> c"
  shows "mask_get (mask_set m c v) c' = mask_get m c'"
proof (cases "Suc (snd c) < length m")
  case True
  show ?thesis
  proof (cases "snd c' = snd c")
    case row: True
    with assms have "fst c' \<noteq> fst c" by (auto simp: prod_eq_iff)
    with True row show ?thesis
      by (simp add: mask_get_def mask_set_def)
  next
    case False
    with True show ?thesis
      by (simp add: mask_get_def mask_set_def)
  qed
next
  case False
  then show ?thesis by (simp add: mask_set_def list_update_beyond)
qed

lemma length_mask_set: "length (mask_set m c v) = length m"
  by (simp add: mask_set_def)

subsection \<open>What the loop leaves alone\<close>

lemma ff_loop_length: "length (ff_loop P m wl) = length m"
  by (induction P m wl rule: ff_loop.induct) (auto simp: length_mask_set ff_loop.simps)

lemma ff_loop_length_row: "length (ff_loop P m wl ! i) = length (m ! i)"
  by (induction P m wl rule: ff_loop.induct) (auto simp: length_row_mask_set ff_loop.simps)

lemma ff_loop_keeps:
  "mask_get m c \<noteq> Some 0 \<Longrightarrow> mask_get (ff_loop P m wl) c = mask_get m c"
proof (induction P m wl rule: ff_loop.induct)
  case (1 P m)
  then show ?case by (simp add: ff_loop.simps)
next
  case (2 P m ref c0 wl)
  show ?case
  proof (cases "mask_get m c0 = Some 0 \<and> admits P ref c0")
    case True
    with "2.prems" have "c \<noteq> c0" by auto
    then have "mask_get (mask_set m c0 (new_mask_val P)) c = mask_get m c"
      by (rule mask_get_set_other)
    with "2.IH"(1) [OF True] "2.prems" True show ?thesis by (simp add: ff_loop.simps)
  next
    case False
    with "2.IH"(2) "2.prems" show ?thesis by (auto simp: ff_loop.simps)
  qed
qed

lemma ff_loop_range:
  "mask_get (ff_loop P m wl) c = mask_get m c \<or> mask_get (ff_loop P m wl) c = Some (new_mask_val P)"
proof (induction P m wl rule: ff_loop.induct)
  case (1 P m)
  then show ?case by (simp add: ff_loop.simps)
next
  case (2 P m ref c0 wl)
  show ?case
  proof (cases "mask_get m c0 = Some 0 \<and> admits P ref c0")
    case True
    let ?m1 = "mask_set m c0 (new_mask_val P)"
    show ?thesis
    proof (cases "c = c0")
      case c: True
      have "mask_get ?m1 c0 = Some (new_mask_val P)"
        using True by (auto intro: mask_get_set_same)
      then have "mask_get (ff_loop P ?m1 (map (\<lambda>n. (pixel_at (fp_image P) c0, n))
                   (neighbours (fp_connectivity P) c0) @ wl)) c0 = Some (new_mask_val P)"
        using ff_loop_keeps [of ?m1 c0] by (simp add: new_mask_val_nonzero)
      with True c show ?thesis by (simp add: ff_loop.simps)
    next
      case False
      then have "mask_get ?m1 c = mask_get m c" by (rule mask_get_set_other)
      with "2.IH"(1) [OF True] True show ?thesis by (auto simp: ff_loop.simps)
    qed
  next
    case False
    with "2.IH"(2) show ?thesis by (auto simp: ff_loop.simps)
  qed
qed

subsection \<open>Every cell the loop marks is reachable from a pending cell\<close>

lemma ff_loop_sound:
  "fp_fixed_range P \<Longrightarrow> mask_get (ff_loop P m wl) c = Some (new_mask_val P) \<Longrightarrow>
   mask_get m c \<noteq> Some (new_mask_val P) \<Longrightarrow>
   \<exists>d \<in> snd ` set wl. adm P d \<and> (d, c) \<in> (edges P)\<^sup>*"
proof (induction P m wl rule: ff_loop.induct)
  case (1 P m)
  then show ?case by (simp add: ff_loop.simps)
next
  case (2 P m ref c0 wl)
  let ?v = "new_mask_val P"
  let ?m1 = "mask_set m c0 ?v"
  let ?wl1 = "map (\<lambda>n. (pixel_at (fp_image P) c0, n)) (neighbours (fp_connectivity P) c0) @ wl"
  show ?case
  proof (cases "mask_get m c0 = Some 0 \<and> admits P ref c0")
    case True
    then have adm0: "adm P c0" using "2.prems"(1) by (simp add: admits_fixed)
    show ?thesis
    proof (cases "c = c0")
      case True
      with adm0 show ?thesis by auto
    next
      case False
      then have "mask_get ?m1 c = mask_get m c" by (rule mask_get_set_other)
      with "2.prems" True have fin: "mask_get (ff_loop P ?m1 ?wl1) c = Some ?v"
        and ini: "mask_get ?m1 c \<noteq> Some ?v" by (simp_all add: ff_loop.simps)
      from "2.IH"(1) [OF True "2.prems"(1) fin ini]
      obtain d where d: "d \<in> snd ` set ?wl1" "adm P d" "(d, c) \<in> (edges P)\<^sup>*" by blast
      from d(1) consider "d \<in> set (neighbours (fp_connectivity P) c0)" | "d \<in> snd ` set wl"
        by (auto simp: image_Un image_image)
      then show ?thesis
      proof cases
        case 1
        with d(2) have "(c0, d) \<in> edges P" by (simp add: edges_def)
        from this d(3) have "(c0, c) \<in> (edges P)\<^sup>*" by (rule converse_rtrancl_into_rtrancl)
        with adm0 show ?thesis by (intro bexI [of _ c0]) auto
      next
        case 2
        with d(2,3) show ?thesis by (intro bexI [of _ d]) auto
      qed
    qed
  next
    case False
    with "2.prems" have "mask_get (ff_loop P m wl) c = Some ?v" by (auto simp: ff_loop.simps)
    from "2.IH"(2) [OF False "2.prems"(1) this "2.prems"(3)] show ?thesis by auto
  qed
qed

subsection \<open>The marked cells are closed under the edges when the loop ends\<close>

lemma closed_uptoD:
  "closed_upto P m S \<Longrightarrow> mask_get m c = Some (new_mask_val P) \<Longrightarrow> (c, c') \<in> edges P \<Longrightarrow>
   mask_get m c' = Some (new_mask_val P) \<or> c' \<in> S"
  unfolding closed_upto_def by blast

lemma fillable_mask_set:
  assumes "fillable P m" and "mask_get m c0 = Some 0"
  shows "fillable P (mask_set m c0 (new_mask_val P))"
  unfolding fillable_def
proof (intro allI impI)
  fix c assume "adm P c"
  show "mask_get (mask_set m c0 (new_mask_val P)) c = Some 0 \<or>
        mask_get (mask_set m c0 (new_mask_val P)) c = Some (new_mask_val P)"
  proof (cases "c = c0")
    case True
    with assms(2) show ?thesis by (simp add: mask_get_set_same)
  next
    case False
    moreover from assms(1) \<open>adm P c\<close>
    have "mask_get m c = Some 0 \<or> mask_get m c = Some (new_mask_val P)"
      unfolding fillable_def by blast
    ultimately show ?thesis by (simp add: mask_get_set_other)
  qed
qed

lemma ff_loop_complete:
  "fp_fixed_range P \<Longrightarrow> closed_upto P m (snd ` set wl) \<Longrightarrow> fillable P m \<Longrightarrow>
   closed_upto P (ff_loop P m wl) {} \<and>
   (\<forall>d \<in> snd ` set wl. adm P d \<longrightarrow> mask_get (ff_loop P m wl) d = Some (new_mask_val P))"
proof (induction P m wl rule: ff_loop.induct)
  case (1 P m)
  then show ?case by (simp add: ff_loop.simps)
next
  case (2 P m ref c0 wl)
  let ?v = "new_mask_val P"
  let ?m1 = "mask_set m c0 ?v"
  let ?wl1 = "map (\<lambda>n. (pixel_at (fp_image P) c0, n)) (neighbours (fp_connectivity P) c0) @ wl"
  have pend1: "snd ` set ?wl1 = set (neighbours (fp_connectivity P) c0) \<union> snd ` set wl"
    by (auto simp: image_Un image_image)
  show ?case
  proof (cases "mask_get m c0 = Some 0 \<and> admits P ref c0")
    case True
    then have zero: "mask_get m c0 = Some 0" by simp
    have marked0: "mask_get ?m1 c0 = Some ?v" using zero by (rule mask_get_set_same)
    have closed1: "closed_upto P ?m1 (snd ` set ?wl1)"
      unfolding closed_upto_def
    proof (intro allI impI)
      fix c c' assume c: "mask_get ?m1 c = Some ?v" and e: "(c, c') \<in> edges P"
      show "mask_get ?m1 c' = Some ?v \<or> c' \<in> snd ` set ?wl1"
      proof (cases "c = c0")
        case True
        with e have "c' \<in> set (neighbours (fp_connectivity P) c0)" by (simp add: edges_def)
        then have "c' \<in> snd ` set ?wl1" unfolding pend1 by simp
        then show ?thesis by simp
      next
        case False
        with c have "mask_get m c = Some ?v" by (simp add: mask_get_set_other)
        from closed_uptoD [OF "2.prems"(2) this e]
        have "mask_get m c' = Some ?v \<or> c' = c0 \<or> c' \<in> snd ` set wl"
          by auto
        then show ?thesis
        proof (elim disjE)
          assume m: "mask_get m c' = Some ?v"
          with zero have "c' \<noteq> c0" using new_mask_val_nonzero [of P] by auto
          with m show ?thesis by (simp add: mask_get_set_other)
        next
          assume "c' = c0"
          with marked0 show ?thesis by simp
        next
          assume "c' \<in> snd ` set wl"
          then have "c' \<in> snd ` set ?wl1" unfolding pend1 by blast
          then show ?thesis by blast
        qed
      qed
    qed
    have fill1: "fillable P ?m1" using "2.prems"(3) zero by (rule fillable_mask_set)
    from "2.IH"(1) [OF True "2.prems"(1) closed1 fill1]
    have fin: "closed_upto P (ff_loop P ?m1 ?wl1) {}"
      and pend: "\<forall>d \<in> snd ` set ?wl1. adm P d \<longrightarrow> mask_get (ff_loop P ?m1 ?wl1) d = Some ?v"
      by blast+
    have "mask_get (ff_loop P ?m1 ?wl1) c0 = Some ?v"
      using ff_loop_keeps [of ?m1 c0 P ?wl1] marked0 new_mask_val_nonzero [of P] by simp
    moreover have "ff_loop P m ((ref, c0) # wl) = ff_loop P ?m1 ?wl1"
      using True by (simp add: ff_loop.simps)
    ultimately show ?thesis using fin pend unfolding pend1 by auto
  next
    case False
    have head: "mask_get m c0 = Some ?v" if "adm P c0"
    proof -
      from that "2.prems"(1) have "admits P ref c0" by (simp add: admits_fixed)
      with False have "mask_get m c0 \<noteq> Some 0" by simp
      with "2.prems"(3) that show ?thesis unfolding fillable_def by blast
    qed
    have closed1: "closed_upto P m (snd ` set wl)"
      unfolding closed_upto_def
    proof (intro allI impI)
      fix c c' assume c: "mask_get m c = Some ?v" and e: "(c, c') \<in> edges P"
      from closed_uptoD [OF "2.prems"(2) c e]
      have "mask_get m c' = Some ?v \<or> c' = c0 \<or> c' \<in> snd ` set wl"
        by auto
      moreover have "adm P c'" using e by (simp add: edges_def)
      ultimately show "mask_get m c' = Some ?v \<or> c' \<in> snd ` set wl"
        using head by auto
    qed
    from "2.IH"(2) [OF False "2.prems"(1) closed1 "2.prems"(3)]
    have fin: "closed_upto P (ff_loop P m wl) {}"
      and pend: "\<forall>d \<in> snd ` set wl. adm P d \<longrightarrow> mask_get (ff_loop P m wl) d = Some ?v"
      by blast+
    have "mask_get (ff_loop P m wl) c0 = Some ?v" if "adm P c0"
      using ff_loop_keeps [of m c0 P wl] head [OF that] new_mask_val_nonzero [of P] by simp
    moreover have "ff_loop P m ((ref, c0) # wl) = ff_loop P m wl"
      using False by (auto simp: ff_loop.simps)
    ultimately show ?thesis using fin pend by auto
  qed
qed

subsection \<open>The marked cells are the cells reachable from the seed\<close>

lemma ff_loop_region:
  assumes fixed: "fp_fixed_range P"
    and fill: "fillable P m"
    and fresh: "\<And>c. mask_get m c \<noteq> Some (new_mask_val P)"
    and seed: "adm P s"
  shows "mask_get (ff_loop P m [(r, s)]) c = Some (new_mask_val P) \<longleftrightarrow> (s, c) \<in> (edges P)\<^sup>*"
proof
  assume "mask_get (ff_loop P m [(r, s)]) c = Some (new_mask_val P)"
  from ff_loop_sound [OF fixed this fresh] show "(s, c) \<in> (edges P)\<^sup>*" by simp
next
  have "closed_upto P m (snd ` set [(r, s)])"
    using fresh by (simp add: closed_upto_def)
  from ff_loop_complete [OF fixed this fill]
  have closed: "closed_upto P (ff_loop P m [(r, s)]) {}"
    and start: "mask_get (ff_loop P m [(r, s)]) s = Some (new_mask_val P)"
    using seed by auto
  assume "(s, c) \<in> (edges P)\<^sup>*"
  then show "mask_get (ff_loop P m [(r, s)]) c = Some (new_mask_val P)"
  proof (induction rule: rtrancl_induct)
    case base
    then show ?case by (rule start)
  next
    case (step y z)
    from closed_uptoD [OF closed step.IH step.hyps(2)] show ?case by blast
  qed
qed

lemma in_range_tolerance:
  "in_range (T, T, T) (T, T, T) s p = within_tolerance T s p"
  by (cases s; cases p) (auto simp: within_tolerance_def channel_in_range_def)

lemma neighbours_4: "b \<in> set (neighbours 4 a) \<longleftrightarrow> adjacent4 a b"
  by (cases a; cases b) auto

lemma path4_snoc: "path4 (p @ [z]) \<longleftrightarrow> path4 p \<and> (p = [] \<or> adjacent4 (last p) z)"
  by (induction p rule: path4.induct) auto

lemma path4_edges:
  assumes "\<And>a b. (a, b) \<in> E \<longleftrightarrow> adjacent4 a b \<and> A b"
  shows "p \<noteq> [] \<Longrightarrow> path4 p \<Longrightarrow> \<forall>d \<in> set p. A d \<Longrightarrow> (hd p, last p) \<in> E\<^sup>*"
proof (induction p rule: path4.induct)
  case 1
  then show ?case by simp
next
  case (2 c)
  then show ?case by simp
next
  case (3 c d cs)
  then have "(c, d) \<in> E" using assms by simp
  moreover from 3 have "(d, last (d # cs)) \<in> E\<^sup>*" by simp
  ultimately show ?case by (simp add: converse_rtrancl_into_rtrancl)
qed

lemma edges_path4:
  assumes E: "\<And>a b. (a, b) \<in> E \<longleftrightarrow> adjacent4 a b \<and> A b" and s: "A s"
  shows "(s, c) \<in> E\<^sup>* \<Longrightarrow> \<exists>p. p \<noteq> [] \<and> hd p = s \<and> last p = c \<and> path4 p \<and> (\<forall>d \<in> set p. A d)"
proof (induction rule: rtrancl_induct)
  case base
  show ?case using s by (intro exI [of _ "[s]"]) simp
next
  case (step y z)
  then obtain p where p: "p \<noteq> []" "hd p = s" "last p = y" "path4 p" "\<forall>d \<in> set p. A d"
    by blast
  from step.hyps(2) E have "adjacent4 y z" "A z" by simp_all
  with p show ?case by (intro exI [of _ "p @ [z]"]) (simp add: path4_snoc)
qed

lemma connected_to_seed_edges:
  assumes E: "\<And>a b. (a, b) \<in> E \<longleftrightarrow>
      adjacent4 a b \<and> in_bounds im b \<and> within_tolerance T (pixel_at im s) (pixel_at im b)"
  shows "connected_to_seed im T s c \<longleftrightarrow>
     in_bounds im s \<and> within_tolerance T (pixel_at im s) (pixel_at im s) \<and> (s, c) \<in> E\<^sup>*"
proof
  assume "connected_to_seed im T s c"
  then obtain p where p: "p \<noteq> []" "hd p = s" "last p = c" "path4 p"
    "\<forall>d \<in> set p. in_bounds im d \<and> within_tolerance T (pixel_at im s) (pixel_at im d)"
    unfolding connected_to_seed_def by blast
  from p(1,2) have "s \<in> set p" by (cases p) auto
  with p(5) have "in_bounds im s \<and> within_tolerance T (pixel_at im s) (pixel_at im s)" by blast
  moreover from path4_edges [of E "\<lambda>d. in_bounds im d \<and> within_tolerance T (pixel_at im s) (pixel_at im d)" p]
    E p have "(s, c) \<in> E\<^sup>*" by simp
  ultimately show "in_bounds im s \<and> within_tolerance T (pixel_at im s) (pixel_at im s) \<and> (s, c) \<in> E\<^sup>*"
    by simp
next
  assume a: "in_bounds im s \<and> within_tolerance T (pixel_at im s) (pixel_at im s) \<and> (s, c) \<in> E\<^sup>*"
  from edges_path4 [of E "\<lambda>d. in_bounds im d \<and> within_tolerance T (pixel_at im s) (pixel_at im d)" s c]
    E a show "connected_to_seed im T s c"
    unfolding connected_to_seed_def by simp
qed

lemma within_tolerance_refl: "0 \<le> T \<Longrightarrow> within_tolerance T s s"
  by (cases s) (simp add: within_tolerance_def)

lemma within_tolerance_mono: "T1 \<le> T2 \<Longrightarrow> within_tolerance T1 s p \<Longrightarrow> within_tolerance T2 s p"
  by (cases s; cases p) (auto simp: within_tolerance_def)

lemma connected_to_seed_mono:
  "T1 \<le> T2 \<Longrightarrow> connected_to_seed im T1 s c \<Longrightarrow> connected_to_seed im T2 s c"
  unfolding connected_to_seed_def by (blast intro: within_tolerance_mono)

subsection \<open>Arrays\<close>

lemma shape_np_zeros: "length (np_zeros r c) = r" "\<forall>row \<in> set (np_zeros r c). length row = c"
  by (simp_all add: np_zeros_def)

lemma length_set_border: "length (set_border m) = length m"
  by (simp add: set_border_def)

lemma set_border_nth:
  "i < length m \<Longrightarrow> set_border m ! i =
     (if i = 0 \<or> Suc i = length m then replicate (length (m ! i)) 1
      else (m ! i)[0 := 1, length (m ! i) - 1 := 1])"
  by (simp add: set_border_def nth_enumerate_eq)

lemma length_set_border_row: "i < length m \<Longrightarrow> length (set_border m ! i) = length (m ! i)"
  by (simp add: set_border_nth)

lemma np_zeros_nth: "i < r \<Longrightarrow> np_zeros r c ! i = replicate c 0"
  by (simp add: np_zeros_def)

lemma length_np_zeros: "length (np_zeros r c) = r"
  by (simp add: np_zeros_def)

lemma mask_get_border_zeros_gen:
  assumes "Suc (Suc y) < r" and "Suc (Suc x) < c"
  shows "mask_get (set_border (np_zeros r c)) (x, y) = Some 0"
proof -
  let ?m = "np_zeros r c"
  have i: "Suc y < length ?m" using assms(1) by (simp add: length_np_zeros)
  have row: "?m ! Suc y = replicate c 0"
    using assms(1) by (intro np_zeros_nth) simp
  have "set_border ?m ! Suc y = (replicate c 0)[0 := 1, c - 1 := 1]"
    using assms(1) by (simp add: set_border_nth [OF i] row length_np_zeros)
  moreover have "(replicate c (0::8 word))[0 := 1, c - 1 := 1] ! Suc x = 0"
    using assms(2) by (simp add: nth_list_update)
  ultimately show ?thesis
    using i assms(2) by (simp add: mask_get_def length_set_border)
qed

lemma mask_get_border_zeros:
  assumes "x < w" and "y < h"
  shows "mask_get (set_border (np_zeros (h + 2) (w + 2))) (x, y) = Some 0"
  using assms by (intro mask_get_border_zeros_gen) simp_all

lemma mask_get_border_zeros_values:
  "mask_get (set_border (np_zeros r c)) d \<noteq> Some 255"
proof
  assume a: "mask_get (set_border (np_zeros r c)) d = Some 255"
  let ?i = "Suc (snd d)" and ?j = "Suc (fst d)"
  from a have i: "?i < r" and j: "?j < c"
    and v: "set_border (np_zeros r c) ! ?i ! ?j = 255"
    by (auto simp: mask_get_def length_set_border length_set_border_row np_zeros_def
          split: if_splits)
  have "set_border (np_zeros r c) ! ?i ! ?j = 0 \<or> set_border (np_zeros r c) ! ?i ! ?j = 1"
    using i j by (auto simp: set_border_nth np_zeros_def nth_list_update)
  with v show False by simp
qed

lemma slice_nth:
  assumes "length m = h + 2" and "\<forall>r \<in> set m. length r = w + 2" and "y < h" and "x < w"
  shows "map (\<lambda>r. butlast (tl r)) (butlast (tl m)) ! y ! x = m ! Suc y ! Suc x"
proof -
  have row: "butlast (tl m) ! y = m ! Suc y"
    using assms(1,3) by (simp add: nth_butlast nth_tl)
  have "Suc y < length m" using assms(1,3) by simp
  then have "length (m ! Suc y) = w + 2" using assms(2) by simp
  then have "butlast (tl (m ! Suc y)) ! x = m ! Suc y ! Suc x"
    using assms(4) by (simp add: nth_butlast nth_tl)
  with row assms(1,3) show ?thesis by simp
qed

lemma slice_shape:
  assumes "length m = h + 2" and "\<forall>r \<in> set m. length r = w + 2"
  shows "length (map (\<lambda>r. butlast (tl r)) (butlast (tl m))) = h"
    and "\<forall>r \<in> set (map (\<lambda>r. butlast (tl r)) (butlast (tl m))). length r = w"
proof -
  show "length (map (\<lambda>r. butlast (tl r)) (butlast (tl m))) = h"
    using assms(1) by simp
  have "set (butlast (tl m)) \<subseteq> set (tl m)"
    by (auto dest: in_set_butlastD)
  moreover have "set (tl m) \<subseteq> set m"
    by (cases m) auto
  ultimately have "set (butlast (tl m)) \<subseteq> set m"
    by blast
  with assms(2) show "\<forall>r \<in> set (map (\<lambda>r. butlast (tl r)) (butlast (tl m))). length r = w"
    by auto
qed

lemma ff_loop_rows:
  assumes "\<forall>r \<in> set m. length r = n"
  shows "\<forall>r \<in> set (ff_loop P m wl). length r = n"
proof
  fix r assume "r \<in> set (ff_loop P m wl)"
  then obtain i where i: "i < length (ff_loop P m wl)" "r = ff_loop P m wl ! i"
    by (auto simp: in_set_conv_nth)
  then have "i < length m" by (simp add: ff_loop_length)
  with assms have "length (m ! i) = n" by simp
  with i show "length r = n" by (simp add: ff_loop_length_row)
qed

lemma set_border_rows:
  assumes "\<forall>r \<in> set m. length r = n"
  shows "\<forall>r \<in> set (set_border m). length r = n"
proof
  fix r assume "r \<in> set (set_border m)"
  then obtain i where i: "i < length (set_border m)" "r = set_border m ! i"
    by (auto simp: in_set_conv_nth)
  then have "i < length m" by (simp add: length_set_border)
  with assms i show "length r = n" by (simp add: length_set_border_row)
qed

lemma flags_eval:
  "(4 OR FLOODFILL_FIXED_RANGE OR FLOODFILL_MASK_ONLY OR push_bit 8 255 :: nat) = 261892"
  by (simp add: FLOODFILL_FIXED_RANGE_def FLOODFILL_MASK_ONLY_def)

lemma flags_decode:
  "(261892::nat) AND 255 = 4" "(261892::nat) AND FLOODFILL_FIXED_RANGE \<noteq> 0"
  "(of_nat (drop_bit 8 (261892::nat) AND 255) :: 8 word) = 255"
  by (simp_all add: FLOODFILL_FIXED_RANGE_def)

lemma floodFill_click:
  "floodFill (img g) (np_zeros (fst (np_shape (img g)) + 2) (snd (np_shape (img g)) + 2)) (x, y) nv
      (TOLERANCE g, TOLERANCE g, TOLERANCE g) (TOLERANCE g, TOLERANCE g, TOLERANCE g) 261892 =
   (if \<not> (0 \<le> x \<and> x < int (snd (np_shape (img g))) \<and> 0 \<le> y \<and> y < int (fst (np_shape (img g))))
    then Inl StsOutOfRange
    else if TOLERANCE g < 0 then Inl StsBadArg
    else Inr (ff_loop (click_params g (nat x, nat y)) (click_mask g)
                [(pixel_at (img g) (nat x, nat y), (nat x, nat y))]))"
  by (simp add: floodFill_def flags_decode shape_np_zeros click_params_def click_mask_def
        case_prod_unfold Let_def)

lemma on_mouse_click_unfold:
  "on_mouse_click EVENT_LBUTTONDOWN x y g =
     (case floodFill (img g) (np_zeros (fst (np_shape (img g)) + 2) (snd (np_shape (img g)) + 2)) (x, y)
             (0, 255, 0) (TOLERANCE g, TOLERANCE g, TOLERANCE g)
             (TOLERANCE g, TOLERANCE g, TOLERANCE g) 261892 of
        Inl e \<Rightarrow> Inl e
      | Inr mask' \<Rightarrow>
          Inr (g\<lparr>current_mask := Some (map (\<lambda>r. butlast (tl r)) (butlast (tl mask')))\<rparr>))"
  unfolding on_mouse_click_def flags_eval Let_def case_prod_unfold by simp

lemma on_mouse_click_Inr:
  assumes "on_mouse_click EVENT_LBUTTONDOWN x y g = Inr g'"
  shows "0 \<le> x" "x < int (snd (np_shape (img g)))" "0 \<le> y" "y < int (fst (np_shape (img g)))"
    "0 \<le> TOLERANCE g"
    "g' = g\<lparr>current_mask := Some (map (\<lambda>r. butlast (tl r)) (butlast (tl
       (ff_loop (click_params g (nat x, nat y)) (click_mask g)
          [(pixel_at (img g) (nat x, nat y), (nat x, nat y))]))))\<rparr>"
  using assms unfolding on_mouse_click_unfold floodFill_click
  by (auto split: if_splits)

lemma on_mouse_click_succeeds:
  assumes "0 \<le> x" "x < int (snd (np_shape (img g)))" "0 \<le> y" "y < int (fst (np_shape (img g)))"
    "0 \<le> TOLERANCE g"
  shows "\<exists>g'. on_mouse_click EVENT_LBUTTONDOWN x y g = Inr g'"
  using assms unfolding on_mouse_click_unfold floodFill_click
  by simp

lemma click_params_sel:
  "fp_fixed_range (click_params g s)" "fp_connectivity (click_params g s) = 4"
  "new_mask_val (click_params g s) = 255" "fp_image (click_params g s) = img g"
  by (simp_all add: click_params_def new_mask_val_def)

lemma adm_click:
  "adm (click_params g s) c \<longleftrightarrow>
     in_bounds (img g) c \<and> within_tolerance (TOLERANCE g) (pixel_at (img g) s) (pixel_at (img g) c)"
  by (simp add: adm_def admits_def click_params_def in_range_tolerance)

lemma edges_click:
  "(a, b) \<in> edges (click_params g s) \<longleftrightarrow>
     adjacent4 a b \<and> in_bounds (img g) b \<and>
     within_tolerance (TOLERANCE g) (pixel_at (img g) s) (pixel_at (img g) b)"
  by (simp add: edges_def adm_click click_params_sel neighbours_4)

lemma click_mask_shape:
  "length (click_mask g) = fst (np_shape (img g)) + 2"
  "\<forall>r \<in> set (click_mask g). length r = snd (np_shape (img g)) + 2"
proof -
  show "length (click_mask g) = fst (np_shape (img g)) + 2"
    unfolding click_mask_def by (simp only: length_set_border length_np_zeros)
  show "\<forall>r \<in> set (click_mask g). length r = snd (np_shape (img g)) + 2"
    unfolding click_mask_def by (intro set_border_rows shape_np_zeros)
qed

lemma click_mask_zero: "in_bounds (img g) c \<Longrightarrow> mask_get (click_mask g) c = Some 0"
  using mask_get_border_zeros [of "fst c" "snd (np_shape (img g))" "snd c" "fst (np_shape (img g))"]
  by (simp add: click_mask_def in_bounds_def)

lemma click_mask_fresh: "mask_get (click_mask g) c \<noteq> Some 255"
  by (simp add: click_mask_def mask_get_border_zeros_values)

lemma on_mouse_click_mask:
  assumes run: "on_mouse_click EVENT_LBUTTONDOWN x y g = Inr g'"
  shows "\<exists>cm. current_mask g' = Some cm \<and> length cm = fst (np_shape (img g)) \<and>
           (\<forall>r \<in> set cm. length r = snd (np_shape (img g))) \<and>
           (\<forall>c. in_bounds (img g) c \<longrightarrow>
              cm ! snd c ! fst c =
                (if connected_to_seed (img g) (TOLERANCE g) (nat x, nat y) c then 255 else 0))"
proof -
  let ?s = "(nat x, nat y)"
  let ?P = "click_params g ?s"
  let ?fin = "ff_loop ?P (click_mask g) [(pixel_at (img g) ?s, ?s)]"
  let ?cm = "map (\<lambda>r. butlast (tl r)) (butlast (tl ?fin))"
  note ok = on_mouse_click_Inr [OF run]
  have seed_in: "in_bounds (img g) ?s"
    using ok(1-4) by (simp add: in_bounds_def nat_less_iff)
  have seed_tol: "within_tolerance (TOLERANCE g) (pixel_at (img g) ?s) (pixel_at (img g) ?s)"
    using ok(5) by (rule within_tolerance_refl)
  have len: "length ?fin = fst (np_shape (img g)) + 2"
    by (simp add: ff_loop_length click_mask_shape)
  have rows: "\<forall>r \<in> set ?fin. length r = snd (np_shape (img g)) + 2"
    by (intro ff_loop_rows click_mask_shape)
  have fill: "fillable ?P (click_mask g)"
    unfolding fillable_def by (simp add: adm_click click_mask_zero)
  have fresh: "\<And>c. mask_get (click_mask g) c \<noteq> Some (new_mask_val ?P)"
    by (simp add: click_params_sel click_mask_fresh)
  have seed: "adm ?P ?s"
    using seed_in seed_tol by (simp add: adm_click)
  have region: "mask_get ?fin c = Some 255 \<longleftrightarrow> connected_to_seed (img g) (TOLERANCE g) ?s c" for c
  proof -
    have "mask_get ?fin c = Some (new_mask_val ?P) \<longleftrightarrow> (?s, c) \<in> (edges ?P)\<^sup>*"
      using click_params_sel(1) fill fresh seed by (rule ff_loop_region)
    moreover have "connected_to_seed (img g) (TOLERANCE g) ?s c \<longleftrightarrow>
        in_bounds (img g) ?s \<and>
        within_tolerance (TOLERANCE g) (pixel_at (img g) ?s) (pixel_at (img g) ?s) \<and>
        (?s, c) \<in> (edges ?P)\<^sup>*"
      by (rule connected_to_seed_edges) (rule edges_click)
    ultimately show ?thesis
      using seed_in seed_tol by (simp add: click_params_sel)
  qed
  have cell: "?cm ! snd c ! fst c =
      (if connected_to_seed (img g) (TOLERANCE g) ?s c then 255 else 0)"
    if c: "in_bounds (img g) c" for c
  proof -
    from c have y: "snd c < fst (np_shape (img g))" and x: "fst c < snd (np_shape (img g))"
      by (simp_all add: in_bounds_def)
    have nth: "?cm ! snd c ! fst c = ?fin ! Suc (snd c) ! Suc (fst c)"
      using len rows y x by (rule slice_nth)
    have "Suc (snd c) < length ?fin" using len y by simp
    moreover from this rows have "length (?fin ! Suc (snd c)) = snd (np_shape (img g)) + 2"
      by simp
    ultimately have get: "mask_get ?fin c = Some (?fin ! Suc (snd c) ! Suc (fst c))"
      using x by (simp add: mask_get_def)
    have "mask_get ?fin c = mask_get (click_mask g) c \<or> mask_get ?fin c = Some (new_mask_val ?P)"
      by (rule ff_loop_range)
    then have "mask_get ?fin c = Some 0 \<or> mask_get ?fin c = Some 255"
      using c by (simp add: click_mask_zero click_params_sel)
    with region [of c] get nth show ?thesis by auto
  qed
  have "current_mask g' = Some ?cm" using ok(6) by simp
  moreover have "length ?cm = fst (np_shape (img g))"
    using len rows by (rule slice_shape)
  moreover have "\<forall>r \<in> set ?cm. length r = snd (np_shape (img g))"
    using len rows by (rule slice_shape)
  ultimately show ?thesis using cell by blast
qed

lemma ex_shape: "np_shape (img ex_globals) = (1, 3)"
  by (simp add: ex_globals_def np_shape_def)

lemma ex_connected_0:
  "0 \<le> T \<Longrightarrow> connected_to_seed (img ex_globals) T (0, 0) (0, 0)"
  unfolding connected_to_seed_def
  by (intro exI [of _ "[(0, 0)]"])
     (simp add: in_bounds_def ex_shape within_tolerance_refl)

lemma ex_connected_1:
  "30 \<le> T \<Longrightarrow> connected_to_seed (img ex_globals) T (0, 0) (1, 0)"
  unfolding connected_to_seed_def
  by (intro exI [of _ "[(0, 0), (1, 0)]"])
     (simp add: in_bounds_def np_shape_def within_tolerance_def pixel_at_def ex_globals_def)

lemma ex_not_connected_2:
  assumes "T < 190"
  shows "\<not> connected_to_seed (img ex_globals) T (0, 0) (2, 0)"
proof
  assume "connected_to_seed (img ex_globals) T (0, 0) (2, 0)"
  then obtain p where p: "p \<noteq> []" "last p = (2, 0)"
    "\<forall>d \<in> set p. within_tolerance T (pixel_at (img ex_globals) (0, 0)) (pixel_at (img ex_globals) d)"
    unfolding connected_to_seed_def by blast
  from p(1,2) have "(2, 0) \<in> set p" using last_in_set by metis
  with p(3) have "within_tolerance T (pixel_at (img ex_globals) (0, 0)) (pixel_at (img ex_globals) (2, 0))"
    by blast
  with assms show False
    by (simp add: within_tolerance_def pixel_at_def ex_globals_def)
qed

lemma ex_click:
  "on_mouse_click EVENT_LBUTTONDOWN 0 0 ex_globals =
     Inr (ex_globals\<lparr>current_mask := Some [[255, 255, 0]]\<rparr>)"
proof -
  have T: "TOLERANCE ex_globals = 50" by (simp add: ex_globals_def)
  obtain g' where run: "on_mouse_click EVENT_LBUTTONDOWN 0 0 ex_globals = Inr g'"
    using on_mouse_click_succeeds [of 0 ex_globals 0] by (auto simp: ex_shape T)
  from on_mouse_click_mask [OF run] obtain cm where cm: "current_mask g' = Some cm"
    "length cm = 1" "\<forall>r \<in> set cm. length r = 3"
    "\<forall>c. in_bounds (img ex_globals) c \<longrightarrow> cm ! snd c ! fst c =
       (if connected_to_seed (img ex_globals) 50 (0, 0) c then 255 else 0)"
    by (auto simp: ex_shape T)
  from cm(2) obtain r where r: "cm = [r]" by (auto simp: length_Suc_conv)
  with cm(3) have "length r = 3" by simp
  then obtain a b c where abc: "r = [a, b, c]"
    by (auto simp: length_Suc_conv numeral_3_eq_3)
  have "a = 255" using cm(4) [rule_format, of "(0, 0)"] ex_connected_0 [of 50]
    by (simp add: r abc in_bounds_def ex_shape)
  moreover have "b = 255" using cm(4) [rule_format, of "(1, 0)"] ex_connected_1 [of 50]
    by (simp add: r abc in_bounds_def ex_shape)
  moreover have "c = 0" using cm(4) [rule_format, of "(2, 0)"] ex_not_connected_2 [of 50]
    by (simp add: r abc in_bounds_def ex_shape)
  ultimately have "cm = [[255, 255, 0]]" by (simp add: r abc)
  moreover from on_mouse_click_Inr(6) [OF run] obtain X
    where "g' = ex_globals\<lparr>current_mask := Some X\<rparr>" by blast
  ultimately have "g' = ex_globals\<lparr>current_mask := Some [[255, 255, 0]]\<rparr>"
    using cm(1) by simp
  with run show ?thesis by simp
qed

text \<open>
  Claim C2. After a click, a pixel of the image is marked in the mask (value 255, the
  value the overlay tests) if and only if a path of 4-adjacent pixels leads to it from
  the seed, every pixel of which lies in the image and differs from the seed pixel's own
  colour by at most the tolerance in each channel.
\<close>

theorem on_mouse_click_region:
  assumes "on_mouse_click EVENT_LBUTTONDOWN x y g = Inr g'"
    and "in_bounds (img g) (px, py)"
  shows "\<exists>cm. current_mask g' = Some cm \<and>
           (cm ! py ! px = 255 \<longleftrightarrow>
              connected_to_seed (img g) (TOLERANCE g) (nat x, nat y) (px, py))"
proof -
  from on_mouse_click_mask [OF assms(1)] obtain cm where cm: "current_mask g' = Some cm"
    "\<forall>c. in_bounds (img g) c \<longrightarrow> cm ! snd c ! fst c =
       (if connected_to_seed (img g) (TOLERANCE g) (nat x, nat y) c then 255 else 0)"
    by blast
  from cm(2) [rule_format, OF assms(2)] have
    "cm ! py ! px = 255 \<longleftrightarrow> connected_to_seed (img g) (TOLERANCE g) (nat x, nat y) (px, py)"
    by simp
  with cm(1) show ?thesis by blast
qed

theorem on_mouse_click_region_witness:
  "\<exists>g' cm. on_mouse_click EVENT_LBUTTONDOWN 0 0 ex_globals = Inr g' \<and>
      in_bounds (img ex_globals) (1, 0) \<and> in_bounds (img ex_globals) (2, 0) \<and>
      current_mask g' = Some cm \<and>
      connected_to_seed (img ex_globals) (TOLERANCE ex_globals) (0, 0) (1, 0) \<and> cm ! 0 ! 1 = 255 \<and>
      \<not> connected_to_seed (img ex_globals) (TOLERANCE ex_globals) (0, 0) (2, 0) \<and> cm ! 0 ! 2 \<noteq> 255"
proof -
  let ?g' = "ex_globals\<lparr>current_mask := Some [[255, 255, 0]]\<rparr>"
  have T: "TOLERANCE ex_globals = 50" by (simp add: ex_globals_def)
  have in1: "in_bounds (img ex_globals) (1, 0)" and in2: "in_bounds (img ex_globals) (2, 0)"
    by (simp_all add: in_bounds_def ex_shape)
  from on_mouse_click_region [OF ex_click in1] on_mouse_click_region [OF ex_click in2]
  have "([[255, 255, 0]] ! 0 ! 1 = (255::8 word) \<longleftrightarrow>
          connected_to_seed (img ex_globals) (TOLERANCE ex_globals) (0, 0) (1, 0)) \<and>
        ([[255, 255, 0]] ! 0 ! 2 = (255::8 word) \<longleftrightarrow>
          connected_to_seed (img ex_globals) (TOLERANCE ex_globals) (0, 0) (2, 0))"
    by simp
  then have "connected_to_seed (img ex_globals) (TOLERANCE ex_globals) (0, 0) (1, 0) \<and>
      \<not> connected_to_seed (img ex_globals) (TOLERANCE ex_globals) (0, 0) (2, 0)"
    by simp
  with ex_click in1 in2 show ?thesis
    by (intro exI [of _ ?g'] exI [of _ "[[255, 255, 0]]"]) simp
qed

text \<open>
  Claim C5, as amended. The mask a click stores has the height and width of the image;
  it holds 255 (not 1) at exactly the pixels of the grown region and 0 at every other
  pixel. The counterexample below is the click on the example image, whose seed pixel is
  marked 255.
\<close>

theorem on_mouse_click_mask_values:
  assumes "on_mouse_click EVENT_LBUTTONDOWN x y g = Inr g'"
  shows "\<exists>cm. current_mask g' = Some cm \<and>
           length cm = fst (np_shape (img g)) \<and>
           (\<forall>r \<in> set cm. length r = snd (np_shape (img g))) \<and>
           (\<forall>px py. in_bounds (img g) (px, py) \<longrightarrow>
              (connected_to_seed (img g) (TOLERANCE g) (nat x, nat y) (px, py) \<longrightarrow> cm ! py ! px = 255) \<and>
              (\<not> connected_to_seed (img g) (TOLERANCE g) (nat x, nat y) (px, py) \<longrightarrow> cm ! py ! px = 0))"
proof -
  from on_mouse_click_mask [OF assms] obtain cm where cm: "current_mask g' = Some cm"
    "length cm = fst (np_shape (img g))" "\<forall>r \<in> set cm. length r = snd (np_shape (img g))"
    "\<forall>c. in_bounds (img g) c \<longrightarrow> cm ! snd c ! fst c =
       (if connected_to_seed (img g) (TOLERANCE g) (nat x, nat y) c then 255 else 0)"
    by blast
  have "(connected_to_seed (img g) (TOLERANCE g) (nat x, nat y) (px, py) \<longrightarrow> cm ! py ! px = 255) \<and>
        (\<not> connected_to_seed (img g) (TOLERANCE g) (nat x, nat y) (px, py) \<longrightarrow> cm ! py ! px = 0)"
    if "in_bounds (img g) (px, py)" for px py
    using cm(4) [rule_format, OF that] by simp
  with cm(1-3) show ?thesis by blast
qed

theorem on_mouse_click_mask_values_witness:
  "\<exists>g' cm. on_mouse_click EVENT_LBUTTONDOWN 0 0 ex_globals = Inr g' \<and>
      current_mask g' = Some cm \<and> length cm = 1 \<and> length (cm ! 0) = 3 \<and>
      cm ! 0 ! 1 = 255 \<and> cm ! 0 ! 2 = 0"
proof -
  let ?cm = "[[255, 255, 0 :: 8 word]]"
  have T: "TOLERANCE ex_globals = 50" by (simp add: ex_globals_def)
  from on_mouse_click_mask_values [OF ex_click]
  have v: "\<forall>px py. in_bounds (img ex_globals) (px, py) \<longrightarrow>
      (connected_to_seed (img ex_globals) 50 (0, 0) (px, py) \<longrightarrow> ?cm ! py ! px = 255) \<and>
      (\<not> connected_to_seed (img ex_globals) 50 (0, 0) (px, py) \<longrightarrow> ?cm ! py ! px = 0)"
    by (simp add: T)
  have "?cm ! 0 ! 1 = 255"
    using v [rule_format, of 1 0] ex_connected_1 [of 50] by (simp add: in_bounds_def ex_shape)
  moreover have "?cm ! 0 ! 2 = 0"
    using v [rule_format, of 2 0] ex_not_connected_2 [of 50] by (simp add: in_bounds_def ex_shape)
  ultimately show ?thesis using ex_click
    by (intro exI [of _ "ex_globals\<lparr>current_mask := Some ?cm\<rparr>"] exI [of _ ?cm]) simp
qed

theorem on_mouse_click_mask_one_counterexample:
  "\<exists>cm. on_mouse_click EVENT_LBUTTONDOWN 0 0 ex_globals = Inr (ex_globals\<lparr>current_mask := Some cm\<rparr>) \<and>
     in_bounds (img ex_globals) (0, 0) \<and>
     connected_to_seed (img ex_globals) (TOLERANCE ex_globals) (0, 0) (0, 0) \<and>
     cm ! 0 ! 0 = 255 \<and> cm ! 0 ! 0 \<noteq> 1"
proof -
  have T: "TOLERANCE ex_globals = 50" by (simp add: ex_globals_def)
  have "in_bounds (img ex_globals) (0, 0)" by (simp add: in_bounds_def ex_shape)
  moreover have "connected_to_seed (img ex_globals) (TOLERANCE ex_globals) (0, 0) (0, 0)"
    unfolding T by (rule ex_connected_0) simp
  ultimately show ?thesis using ex_click
    by (intro exI [of _ "[[255, 255, 0]]"]) simp
qed

text \<open>
  Claim C6. Region growth is monotonic in the tolerance: when a click succeeds with
  tolerance \<open>T1\<close> and \<open>T1 < T2\<close>, the same click succeeds with \<open>T2\<close>, and every
  pixel marked in the first mask is marked in the second.
\<close>

theorem on_mouse_click_monotone:
  assumes "on_mouse_click EVENT_LBUTTONDOWN x y (g\<lparr>TOLERANCE := T1\<rparr>) = Inr g1"
    and "T1 < T2"
  shows "\<exists>g2 cm1 cm2. on_mouse_click EVENT_LBUTTONDOWN x y (g\<lparr>TOLERANCE := T2\<rparr>) = Inr g2 \<and>
           current_mask g1 = Some cm1 \<and> current_mask g2 = Some cm2 \<and>
           (\<forall>px py. in_bounds (img g) (px, py) \<longrightarrow> cm1 ! py ! px = 255 \<longrightarrow> cm2 ! py ! px = 255)"
proof -
  note ok = on_mouse_click_Inr(1-5) [OF assms(1)]
  from ok assms(2) obtain g2
    where run2: "on_mouse_click EVENT_LBUTTONDOWN x y (g\<lparr>TOLERANCE := T2\<rparr>) = Inr g2"
    using on_mouse_click_succeeds [of x "g\<lparr>TOLERANCE := T2\<rparr>" y] by auto
  from on_mouse_click_mask [OF assms(1)] obtain cm1 where cm1: "current_mask g1 = Some cm1"
    "\<forall>c. in_bounds (img g) c \<longrightarrow> cm1 ! snd c ! fst c =
       (if connected_to_seed (img g) T1 (nat x, nat y) c then 255 else 0)"
    by auto
  from on_mouse_click_mask [OF run2] obtain cm2 where cm2: "current_mask g2 = Some cm2"
    "\<forall>c. in_bounds (img g) c \<longrightarrow> cm2 ! snd c ! fst c =
       (if connected_to_seed (img g) T2 (nat x, nat y) c then 255 else 0)"
    by auto
  have "cm2 ! py ! px = 255" if "in_bounds (img g) (px, py)" "cm1 ! py ! px = 255" for px py
  proof -
    from cm1(2) [rule_format, OF that(1)] that(2)
    have "connected_to_seed (img g) T1 (nat x, nat y) (px, py)"
      by (simp split: if_splits)
    with assms(2) have "connected_to_seed (img g) T2 (nat x, nat y) (px, py)"
      by (intro connected_to_seed_mono [of T1 T2]) simp_all
    with cm2(2) [rule_format, OF that(1)] show ?thesis by simp
  qed
  with run2 cm1(1) cm2(1) show ?thesis by blast
qed

theorem on_mouse_click_monotone_witness:
  "\<exists>g1 g2 cm1 cm2.
      on_mouse_click EVENT_LBUTTONDOWN 0 0 (ex_globals\<lparr>TOLERANCE := 50\<rparr>) = Inr g1 \<and>
      on_mouse_click EVENT_LBUTTONDOWN 0 0 (ex_globals\<lparr>TOLERANCE := 190\<rparr>) = Inr g2 \<and>
      current_mask g1 = Some cm1 \<and> current_mask g2 = Some cm2 \<and>
      cm1 ! 0 ! 1 = 255 \<and> cm2 ! 0 ! 1 = 255"
proof -
  let ?cm = "[[255, 255, 0 :: 8 word]]"
  have same: "ex_globals\<lparr>TOLERANCE := 50\<rparr> = ex_globals" by (simp add: ex_globals_def)
  have run1: "on_mouse_click EVENT_LBUTTONDOWN 0 0 (ex_globals\<lparr>TOLERANCE := 50\<rparr>) =
      Inr (ex_globals\<lparr>current_mask := Some ?cm\<rparr>)"
    unfolding same by (rule ex_click)
  have less: "(50::int) < 190" by simp
  from on_mouse_click_monotone [OF run1 less]
  have "\<exists>g2 cm2. on_mouse_click EVENT_LBUTTONDOWN 0 0 (ex_globals\<lparr>TOLERANCE := 190\<rparr>) = Inr g2 \<and>
      current_mask g2 = Some cm2 \<and>
      (\<forall>px py. in_bounds (img ex_globals) (px, py) \<longrightarrow> ?cm ! py ! px = 255 \<longrightarrow> cm2 ! py ! px = 255)"
    by simp
  then obtain g2 cm2 where
    r: "on_mouse_click EVENT_LBUTTONDOWN 0 0 (ex_globals\<lparr>TOLERANCE := 190\<rparr>) = Inr g2"
      "current_mask g2 = Some cm2"
      "\<forall>px py. in_bounds (img ex_globals) (px, py) \<longrightarrow> ?cm ! py ! px = 255 \<longrightarrow> cm2 ! py ! px = 255"
    by blast
  from r(3) [rule_format, of 1 0] have "cm2 ! 0 ! 1 = 255"
    by (simp add: in_bounds_def ex_shape)
  with run1 r(1,2) show ?thesis
    by (intro exI [of _ "ex_globals\<lparr>current_mask := Some ?cm\<rparr>"] exI [of _ g2]
          exI [of _ ?cm] exI [of _ cm2]) simp
qed

section \<open>Properties of the rectification\<close>

subsection \<open>The handlers, case by case\<close>












subsection \<open>The canvas of warpPerspective\<close>



































text \<open>
  Claim C8. The usable area is \<open>max 0 (real_width * real_height - effective_deselect_area)\<close>:
  a negative difference gives 0 together with a warning, and the result is never a failure.
\<close>

theorem summarize_usable_area_clamped:
  "\<exists>ws. summarize_usable_area rw rh eda = Inr (max 0 (rw * rh - eda), ws) \<and>
         (ws = [ArithmeticGuard] \<longleftrightarrow> rw * rh - eda < 0) \<and> (ws = [] \<longleftrightarrow> 0 \<le> rw * rh - eda)"
  by (auto simp: summarize_usable_area_def Let_def max_def)

theorem summarize_usable_area_clamped_witness:
  "summarize_usable_area 4 3 15 = Inr (0, [ArithmeticGuard]) \<and>
   summarize_usable_area 4 3 5 = Inr (7, [])"
  using summarize_usable_area_clamped [of 4 3 15] summarize_usable_area_clamped [of 4 3 5]
  by auto

end
